theory Spec2Isabelle
  imports Complex_Main
begin

section \<open>Text primitives\<close>

text \<open>
  Python strings are modelled as \<open>string\<close>, one \<open>char\<close> per code point, which covers
  the code points below 256. The character classes below are the Unicode classes
  that Python's \<open>str.strip\<close> and the \<open>re\<close> module use, cut down to that range.
\<close>

definition code :: "char \<Rightarrow> nat" where
  "code c = of_char c"

definition is_space :: "char \<Rightarrow> bool" where
  \<comment> \<open>\<open>str.isspace\<close>, also the class \<open>\s\<close>: TAB..CR, FS..US, space, NEL, NBSP\<close>
  "is_space c = (let n = code c in
     (9 \<le> n \<and> n \<le> 13) \<or> (28 \<le> n \<and> n \<le> 32) \<or> n = 133 \<or> n = 160)"

definition is_digit :: "char \<Rightarrow> bool" where
  \<comment> \<open>the class \<open>\d\<close>: decimal digits\<close>
  "is_digit c = (let n = code c in 48 \<le> n \<and> n \<le> 57)"

definition is_word :: "char \<Rightarrow> bool" where
  \<comment> \<open>the class \<open>\w\<close>: alphanumeric code points and the underscore\<close>
  "is_word c = (let n = code c in
     (48 \<le> n \<and> n \<le> 57) \<or> (65 \<le> n \<and> n \<le> 90) \<or> n = 95 \<or> (97 \<le> n \<and> n \<le> 122) \<or>
     n = 170 \<or> n = 178 \<or> n = 179 \<or> n = 181 \<or> n = 185 \<or> n = 186 \<or>
     (188 \<le> n \<and> n \<le> 190) \<or> (192 \<le> n \<and> n \<le> 214) \<or> (216 \<le> n \<and> n \<le> 246) \<or>
     248 \<le> n)"

definition newline :: char where
  "newline = CHR 0x0A"

definition startswith :: "string \<Rightarrow> string \<Rightarrow> bool" where
  \<comment> \<open>\<open>s.startswith(p)\<close>\<close>
  "startswith s p = (take (length p) s = p)"

fun contains :: "string \<Rightarrow> string \<Rightarrow> bool" where
  \<comment> \<open>\<open>sub in s\<close>, written \<open>contains sub s\<close>\<close>
  "contains sub [] = (sub = [])"
| "contains sub (c # cs) = (startswith (c # cs) sub \<or> contains sub cs)"

definition strip :: "string \<Rightarrow> string" where
  \<comment> \<open>\<open>s.strip()\<close>\<close>
  "strip s = rev (dropWhile is_space (rev (dropWhile is_space s)))"

fun split_acc :: "string \<Rightarrow> string \<Rightarrow> string list" where
  "split_acc cur [] = [rev cur]"
| "split_acc cur (c # cs) =
     (if c = newline then rev cur # split_acc [] cs else split_acc (c # cur) cs)"

definition split_lines :: "string \<Rightarrow> string list" where
  \<comment> \<open>\<open>text.split('\n')\<close>\<close>
  "split_lines text = split_acc [] text"

section \<open>Regular expressions\<close>

text \<open>
  The patterns of \<open>PatternConfig\<close> are flat sequences of literals, anchors and
  one-or-more repetitions of a character class, some of them capturing. The matcher
  is the backtracking search of Python's \<open>re\<close>: a greedy repetition tries the longest
  run first, a lazy one the shortest, and the first alternative that lets the rest of
  the pattern match wins.
\<close>

datatype cls = AnyChar | Space | Digit | DigitDot | Word

fun in_cls :: "cls \<Rightarrow> char \<Rightarrow> bool" where
  "in_cls AnyChar c = (c \<noteq> newline)"
| "in_cls Space c = is_space c"
| "in_cls Digit c = is_digit c"
| "in_cls DigitDot c = (is_digit c \<or> c = CHR ''.'')"
| "in_cls Word c = is_word c"

datatype rep = Greedy | Lazy

datatype item =
    Lit string
  | Bol
  | Eol
  | Plus rep cls
  | Group rep cls

fun first_some :: "'a option list \<Rightarrow> 'a option" where
  "first_some [] = None"
| "first_some (None # xs) = first_some xs"
| "first_some (Some x # xs) = Some x"

definition candidates :: "rep \<Rightarrow> cls \<Rightarrow> string \<Rightarrow> nat list" where
  \<comment> \<open>the lengths a repetition may take at the head of \<open>s\<close>, in the order tried\<close>
  "candidates r c s =
     (let n = length (takeWhile (in_cls c) s)
      in case r of Greedy \<Rightarrow> rev [1..<Suc n] | Lazy \<Rightarrow> [1..<Suc n])"

fun match_here :: "item list \<Rightarrow> nat \<Rightarrow> string \<Rightarrow> string list option" where
  \<comment> \<open>match the items at offset \<open>pos\<close>, where \<open>s\<close> is the text from there on; the result is
      the list of captured groups\<close>
  "match_here [] pos s = Some []"
| "match_here (Lit l # r) pos s =
     (if startswith s l then match_here r (pos + length l) (drop (length l) s) else None)"
| "match_here (Bol # r) pos s = (if pos = 0 then match_here r pos s else None)"
| "match_here (Eol # r) pos s =
     (if s = [] \<or> s = [newline] then match_here r pos s else None)"
| "match_here (Plus g c # r) pos s =
     first_some (map (\<lambda>n. match_here r (pos + n) (drop n s)) (candidates g c s))"
| "match_here (Group g c # r) pos s =
     first_some (map (\<lambda>n. map_option (\<lambda>gs. take n s # gs) (match_here r (pos + n) (drop n s)))
                     (candidates g c s))"

definition re_match :: "item list \<Rightarrow> string \<Rightarrow> string list option" where
  \<comment> \<open>\<open>re.match(p, s)\<close>: a match at offset 0 only\<close>
  "re_match p s = match_here p 0 s"

definition re_search :: "item list \<Rightarrow> string \<Rightarrow> string list option" where
  \<comment> \<open>\<open>re.search(p, s)\<close>: the match at the leftmost offset that has one\<close>
  "re_search p s = first_some (map (\<lambda>k. match_here p k (drop k s)) [0..<Suc (length s)])"

subsection \<open>PatternConfig\<close>

definition PAY_PERIOD_PATTERN :: "item list" where
  "PAY_PERIOD_PATTERN =
     [Lit ''Pay Period '', Group Lazy AnyChar, Lit '' to '', Group Lazy AnyChar,
      Lit '' Paid '', Group Lazy AnyChar, Eol]"

definition PAYMENT_PATTERN :: "item list" where
  "PAYMENT_PATTERN =
     [Lit ''CAS OrdPay (incCASloading)'', Plus Greedy Space, Group Greedy DigitDot,
      Plus Greedy Space, Group Greedy DigitDot, Plus Greedy Space, Group Greedy Word,
      Plus Greedy Space, Group Greedy DigitDot]"

definition GROSS_PAY_PATTERN :: "item list" where
  "GROSS_PAY_PATTERN =
     [Lit ''Gross Pay'', Plus Greedy Space, Group Greedy DigitDot,
      Plus Greedy Space, Group Greedy DigitDot]"

definition TAX_PATTERN :: "item list" where
  "TAX_PATTERN =
     [Bol, Lit ''Tax'', Plus Greedy Space, Group Greedy DigitDot,
      Plus Greedy Space, Group Greedy DigitDot]"

definition NETT_PAY_PATTERN :: "item list" where
  "NETT_PAY_PATTERN =
     [Lit ''Nett Pay'', Plus Greedy Space, Group Greedy DigitDot,
      Plus Greedy Space, Group Greedy DigitDot]"

definition DISBURSEMENT_PATTERN :: "item list" where
  "DISBURSEMENT_PATTERN =
     [Lit ''Commonwealth Bank of Australia'', Plus Greedy Space, Plus Greedy Digit,
      Plus Greedy Space, Group Greedy DigitDot]"

section \<open>Numbers and dates\<close>

datatype error = ValueError

definition digits_value :: "string \<Rightarrow> nat" where
  \<comment> \<open>\<open>int(s)\<close> for a string of decimal digits\<close>
  "digits_value s = foldl (\<lambda>a c. 10 * a + (code c - 48)) 0 s"

text \<open>
  A Python float is modelled by the decimal number its text denotes, a \<open>rat\<close>; the
  rounding to the nearest double, which is monotone and keeps 0, is left out.
  \<open>py_float\<close> is \<open>float(s)\<close> on decimal texts: surrounding white space, an optional
  sign, digits with at most one point and at least one digit. The other spellings
  \<open>float\<close> accepts (exponents, \<open>inf\<close>, \<open>nan\<close>, underscores) contain a character that is
  neither a digit nor a point, so they never come out of a \<open>[\d.]+\<close> group, the only text
  the program passes to \<open>float\<close>; the model answers \<open>ValueError\<close> for them.
\<close>

definition split_sign :: "string \<Rightarrow> bool \<times> string" where
  "split_sign s =
     (case s of
        [] \<Rightarrow> (False, s)
      | c # r \<Rightarrow> if c = CHR ''-'' then (True, r) else if c = CHR ''+'' then (False, r) else (False, s))"

definition split_point :: "string \<Rightarrow> string \<times> string" where
  \<comment> \<open>the digits after an optional leading point, and what follows them\<close>
  "split_point s =
     (case s of
        [] \<Rightarrow> ([], [])
      | c # r \<Rightarrow> if c = CHR ''.'' then (takeWhile is_digit r, dropWhile is_digit r) else ([], s))"

definition py_float :: "string \<Rightarrow> error + rat" where
  "py_float s =
     (let (neg, body) = split_sign (strip s);
          ip = takeWhile is_digit body;
          (fp, rest) = split_point (dropWhile is_digit body)
      in if rest \<noteq> [] \<or> (ip = [] \<and> fp = []) then Inl ValueError
         else let v = of_nat (digits_value ip) + of_nat (digits_value fp) / 10 ^ length fp
              in Inr (if neg then - v else v))"

subsection \<open>DateParser\<close>

text \<open>
  \<open>datetime.strptime(s, '%d%b%y')\<close> in the C locale. The library turns the format into
  the regular expression \<open>(3[0-1]|[1-2]\d|0[1-9]|[1-9]| [1-9])(jan|...|dec)(\d\d)\<close>,
  matched at the start of \<open>s\<close> ignoring case; text left over after the match, or a day
  the month does not have, is a \<open>ValueError\<close>. Years 00..68 are 2000..2068 and 69..99
  are 1969..1999.
\<close>

definition month_abbrs :: "string list" where
  "month_abbrs = [''jan'', ''feb'', ''mar'', ''apr'', ''may'', ''jun'',
                  ''jul'', ''aug'', ''sep'', ''oct'', ''nov'', ''dec'']"

definition to_lower :: "char \<Rightarrow> char" where
  "to_lower c = (if 65 \<le> code c \<and> code c \<le> 90 then char_of (code c + 32) else c)"

definition nonzero_digit :: "char \<Rightarrow> bool" where
  "nonzero_digit c = (49 \<le> code c \<and> code c \<le> 57)"

definition day_alternatives :: "string \<Rightarrow> (nat \<times> string) list" where
  \<comment> \<open>the alternatives of \<open>%d\<close> that match at the head, in the order the pattern lists them\<close>
  "day_alternatives s =
     (case s of
        c1 # c2 # r \<Rightarrow>
          (if c1 = CHR ''3'' \<and> (c2 = CHR ''0'' \<or> c2 = CHR ''1'') then [(digits_value [c1, c2], r)] else []) @
          (if (c1 = CHR ''1'' \<or> c1 = CHR ''2'') \<and> is_digit c2 then [(digits_value [c1, c2], r)] else []) @
          (if c1 = CHR ''0'' \<and> nonzero_digit c2 then [(digits_value [c1, c2], r)] else [])
      | _ \<Rightarrow> []) @
     (case s of
        c1 # r \<Rightarrow> if nonzero_digit c1 then [(digits_value [c1], r)] else []
      | _ \<Rightarrow> []) @
     (case s of
        c1 # c2 # r \<Rightarrow> if c1 = CHR '' '' \<and> nonzero_digit c2 then [(digits_value [c2], r)] else []
      | _ \<Rightarrow> [])"

definition month_alternatives :: "string \<Rightarrow> (nat \<times> string) list" where
  "month_alternatives s =
     concat (map (\<lambda>m. if length s \<ge> 3 \<and> map to_lower (take 3 s) = month_abbrs ! m
                       then [(Suc m, drop 3 s)] else []) [0..<12])"

definition year_alternatives :: "string \<Rightarrow> (nat \<times> string) list" where
  "year_alternatives s =
     (case s of
        c1 # c2 # r \<Rightarrow> if is_digit c1 \<and> is_digit c2 then [(digits_value [c1, c2], r)] else []
      | _ \<Rightarrow> [])"

definition format_matches :: "string \<Rightarrow> (nat \<times> nat \<times> nat \<times> string) list" where
  \<comment> \<open>every way the format matches at the head of \<open>s\<close>, in backtracking order:
      day, month, two-digit year, text left over\<close>
  "format_matches s =
     concat (map (\<lambda>(d, s1).
       concat (map (\<lambda>(m, s2).
         map (\<lambda>(y, s3). (d, m, y, s3)) (year_alternatives s2))
         (month_alternatives s1)))
       (day_alternatives s))"

definition leap_year :: "nat \<Rightarrow> bool" where
  "leap_year y = (y mod 4 = 0 \<and> (y mod 100 \<noteq> 0 \<or> y mod 400 = 0))"

definition days_in_month :: "nat \<Rightarrow> nat \<Rightarrow> nat" where
  "days_in_month y m =
     (if m = 2 then (if leap_year y then 29 else 28)
      else if m = 4 \<or> m = 6 \<or> m = 9 \<or> m = 11 then 30 else 31)"

definition strptime :: "string \<Rightarrow> error + (nat \<times> nat \<times> nat)" where
  \<comment> \<open>the date as (year, month, day)\<close>
  "strptime s =
     (case format_matches s of
        [] \<Rightarrow> Inl ValueError
      | (d, m, yy, rest) # _ \<Rightarrow>
          if rest \<noteq> [] then Inl ValueError
          else let y = (if yy \<le> 68 then 2000 + yy else 1900 + yy)
               in if d \<le> days_in_month y m then Inr (y, m, d) else Inl ValueError)"

definition digit_char :: "nat \<Rightarrow> char" where
  "digit_char n = char_of (48 + n mod 10)"

definition strftime :: "nat \<times> nat \<times> nat \<Rightarrow> string" where
  \<comment> \<open>\<open>strftime('%Y-%m-%d')\<close>\<close>
  "strftime ymd =
     (case ymd of (y, m, d) \<Rightarrow>
        [digit_char (y div 1000), digit_char (y div 100), digit_char (y div 10), digit_char y] @
        ''-'' @ [digit_char (m div 10), digit_char m] @
        ''-'' @ [digit_char (d div 10), digit_char d])"

definition parse_reference_date :: "string \<Rightarrow> string" where
  "parse_reference_date ref_date =
     (case strptime ref_date of
        Inr date_obj \<Rightarrow> strftime date_obj
      | Inl ValueError \<Rightarrow> ref_date)"

section \<open>Data model\<close>

record PayPeriodInfo =
  period :: "string option"
  paid_date :: "string option"

record PaymentRecord =
  pdf_file :: string
  page :: int
  pay_period :: "string option"
  paid_date :: "string option"
  work_date :: string
  hours :: rat
  rate :: rat
  amount :: rat

record SummaryRecord =
  pdf_file :: string
  page :: int
  pay_period :: "string option"
  paid_date :: "string option"
  gross_pay :: "rat option"
  tax :: "rat option"
  nett_pay :: "rat option"
  ytd_gross_pay :: "rat option"
  ytd_tax :: "rat option"
  ytd_nett_pay :: "rat option"
  disbursement_amount :: "rat option"

section \<open>Parsers\<close>

definition group :: "string list \<Rightarrow> nat \<Rightarrow> string" where
  \<comment> \<open>\<open>match.group(i)\<close>, groups counted from 1\<close>
  "group gs i = gs ! (i - 1)"

fun for_loop :: "('a \<Rightarrow> 's \<Rightarrow> 'e + 's) \<Rightarrow> 'a list \<Rightarrow> 's \<Rightarrow> 'e + 's" where
  \<comment> \<open>a \<open>for\<close> loop over \<open>xs\<close> whose body may raise\<close>
  "for_loop body [] s = Inr s"
| "for_loop body (x # xs) s =
     (case body x s of Inl e \<Rightarrow> Inl e | Inr s' \<Rightarrow> for_loop body xs s')"

subsection \<open>PayPeriodParser\<close>

fun PayPeriodParser_extract :: "string list \<Rightarrow> PayPeriodInfo" where
  "PayPeriodParser_extract [] = \<lparr>period = None, paid_date = None\<rparr>"
| "PayPeriodParser_extract (line # rest) =
     (if contains ''Pay Period'' line \<and> contains ''Paid'' line then
        (case re_search PAY_PERIOD_PATTERN line of
           Some m \<Rightarrow> \<lparr>period = Some (group m 1 @ '' to '' @ group m 2),
                      paid_date = Some (group m 3)\<rparr>
         | None \<Rightarrow> PayPeriodParser_extract rest)
      else PayPeriodParser_extract rest)"

subsection \<open>PaymentParser\<close>

text \<open>
  The loop state: the flag \<open>in_payments_section\<close>, the list \<open>payments\<close>, and \<open>stopped\<close>,
  set by \<open>break\<close>: once it is set the remaining iterations do nothing.
\<close>

record scan =
  in_payments_section :: bool
  stopped :: bool
  payments :: "PaymentRecord list"

definition section_start :: "string list \<Rightarrow> nat \<Rightarrow> bool" where
  "section_start lines i =
     (startswith (strip (lines ! i)) ''Payments'' \<and>
      (contains ''Hours'' (lines ! i) \<or>
       (i + 1 < length lines \<and> contains ''Hours'' (lines ! (i + 1)))))"

definition section_end :: "string \<Rightarrow> bool" where
  "section_end line =
     (startswith (strip line) ''Deductions'' \<or> startswith (strip line) ''Benefits'')"

definition make_payment ::
  "string \<Rightarrow> int \<Rightarrow> PayPeriodInfo \<Rightarrow> string list \<Rightarrow> error + PaymentRecord" where
  \<comment> \<open>the record built from the groups of a matched payment line\<close>
  "make_payment pdf_filename page_num pay_period_info m =
     (case py_float (group m 1) of
        Inl e \<Rightarrow> Inl e
      | Inr h \<Rightarrow>
          (case py_float (group m 2) of
             Inl e \<Rightarrow> Inl e
           | Inr r \<Rightarrow>
               (let reference_date = group m 3 in
                case py_float (group m 4) of
                  Inl e \<Rightarrow> Inl e
                | Inr a \<Rightarrow>
                    Inr \<lparr>PaymentRecord.pdf_file = pdf_filename, page = page_num,
                         pay_period = period pay_period_info,
                         paid_date = PayPeriodInfo.paid_date pay_period_info,
                         work_date = parse_reference_date reference_date,
                         hours = h, rate = r, amount = a\<rparr>)))"

definition payment_step ::
  "string list \<Rightarrow> string \<Rightarrow> int \<Rightarrow> PayPeriodInfo \<Rightarrow> nat \<Rightarrow> scan \<Rightarrow> error + scan" where
  \<comment> \<open>the loop body at index \<open>i\<close>\<close>
  "payment_step lines pdf_filename page_num pay_period_info i st =
     (if stopped st then Inr st
      else if section_start lines i then Inr (st\<lparr>in_payments_section := True\<rparr>)
      else if in_payments_section st then
        (if section_end (lines ! i) then Inr (st\<lparr>stopped := True\<rparr>)
         else case re_match PAYMENT_PATTERN (lines ! i) of
                None \<Rightarrow> Inr st
              | Some m \<Rightarrow>
                  (case make_payment pdf_filename page_num pay_period_info m of
                     Inl e \<Rightarrow> Inl e
                   | Inr payment \<Rightarrow> Inr (st\<lparr>payments := payments st @ [payment]\<rparr>)))
      else Inr st)"

definition scan_init :: scan where
  "scan_init = \<lparr>in_payments_section = False, stopped = False, payments = []\<rparr>"

definition scan_upto ::
  "string list \<Rightarrow> string \<Rightarrow> int \<Rightarrow> PayPeriodInfo \<Rightarrow> nat \<Rightarrow> error + scan" where
  \<comment> \<open>the loop state after the iterations \<open>0..<k\<close>\<close>
  "scan_upto lines pdf_filename page_num pay_period_info k =
     for_loop (payment_step lines pdf_filename page_num pay_period_info) [0..<k] scan_init"

definition PaymentParser_extract ::
  "string list \<Rightarrow> string \<Rightarrow> int \<Rightarrow> PayPeriodInfo \<Rightarrow> error + PaymentRecord list" where
  "PaymentParser_extract lines pdf_filename page_num pay_period_info =
     (case scan_upto lines pdf_filename page_num pay_period_info (length lines) of
        Inl e \<Rightarrow> Inl e
      | Inr st \<Rightarrow> Inr (payments st))"

subsection \<open>SummaryParser\<close>

definition two_floats :: "string list \<Rightarrow> error + rat \<times> rat" where
  \<comment> \<open>\<open>float(match.group(1))\<close>, then \<open>float(match.group(2))\<close>\<close>
  "two_floats m =
     (case py_float (group m 1) of
        Inl e \<Rightarrow> Inl e
      | Inr a \<Rightarrow> (case py_float (group m 2) of Inl e \<Rightarrow> Inl e | Inr b \<Rightarrow> Inr (a, b)))"

definition summary_step :: "string \<Rightarrow> SummaryRecord \<Rightarrow> error + SummaryRecord" where
  \<comment> \<open>the loop body on one line\<close>
  "summary_step line summary =
     (let line_stripped = strip line in
      if startswith line_stripped ''Gross Pay'' then
        (case re_search GROSS_PAY_PATTERN line of
           None \<Rightarrow> Inr summary
         | Some m \<Rightarrow> (case two_floats m of Inl e \<Rightarrow> Inl e
             | Inr (a, b) \<Rightarrow> Inr (summary\<lparr>gross_pay := Some a, ytd_gross_pay := Some b\<rparr>)))
      else if startswith line_stripped ''Tax'' \<and> \<not> startswith line ''Tax'' then
        (case re_search TAX_PATTERN line of
           None \<Rightarrow> Inr summary
         | Some m \<Rightarrow> (case two_floats m of Inl e \<Rightarrow> Inl e
             | Inr (a, b) \<Rightarrow> Inr (summary\<lparr>tax := Some a, ytd_tax := Some b\<rparr>)))
      else if startswith line_stripped ''Nett Pay'' then
        (case re_search NETT_PAY_PATTERN line of
           None \<Rightarrow> Inr summary
         | Some m \<Rightarrow> (case two_floats m of Inl e \<Rightarrow> Inl e
             | Inr (a, b) \<Rightarrow> Inr (summary\<lparr>nett_pay := Some a, ytd_nett_pay := Some b\<rparr>)))
      else if contains ''Commonwealth Bank of Australia'' line then
        (case re_search DISBURSEMENT_PATTERN line of
           None \<Rightarrow> Inr summary
         | Some m \<Rightarrow> (case py_float (group m 1) of Inl e \<Rightarrow> Inl e
             | Inr a \<Rightarrow> Inr (summary\<lparr>disbursement_amount := Some a\<rparr>)))
      else Inr summary)"

definition summary_init :: "string \<Rightarrow> int \<Rightarrow> PayPeriodInfo \<Rightarrow> SummaryRecord" where
  "summary_init pdf_filename page_num pay_period_info =
     \<lparr>pdf_file = pdf_filename, page = page_num,
      pay_period = period pay_period_info,
      paid_date = PayPeriodInfo.paid_date pay_period_info,
      gross_pay = None, tax = None, nett_pay = None, ytd_gross_pay = None,
      ytd_tax = None, ytd_nett_pay = None, disbursement_amount = None\<rparr>"

definition SummaryParser_extract ::
  "string list \<Rightarrow> string \<Rightarrow> int \<Rightarrow> PayPeriodInfo \<Rightarrow> error + SummaryRecord" where
  "SummaryParser_extract lines pdf_filename page_num pay_period_info =
     for_loop summary_step lines (summary_init pdf_filename page_num pay_period_info)"

section \<open>PDFProcessor\<close>

text \<open>
  A document is its file name and the text \<open>page.extract_text()\<close> gives for each page,
  \<open>None\<close> or a string. The processor's two lists are threaded through as a pair.
\<close>

type_synonym results = "PaymentRecord list \<times> SummaryRecord list"

definition process_page :: "string \<Rightarrow> string \<Rightarrow> int \<Rightarrow> results \<Rightarrow> error + results" where
  \<comment> \<open>\<open>PDFProcessor._process_page\<close>\<close>
  "process_page pdf_filename text page_num acc =
     (let lines = split_lines text;
          pay_period_info = PayPeriodParser_extract lines
      in case PaymentParser_extract lines pdf_filename page_num pay_period_info of
           Inl e \<Rightarrow> Inl e
         | Inr ps \<Rightarrow>
             (case SummaryParser_extract lines pdf_filename page_num pay_period_info of
                Inl e \<Rightarrow> Inl e
              | Inr summary \<Rightarrow> Inr (fst acc @ ps, snd acc @ [summary])))"

definition truthy :: "string option \<Rightarrow> bool" where
  \<comment> \<open>\<open>if text:\<close>\<close>
  "truthy text = (case text of None \<Rightarrow> False | Some t \<Rightarrow> t \<noteq> [])"

definition enumerate1 :: "'a list \<Rightarrow> (int \<times> 'a) list" where
  \<comment> \<open>\<open>enumerate(xs, 1)\<close>\<close>
  "enumerate1 xs = zip (map int [1..<Suc (length xs)]) xs"

definition page_body :: "string \<Rightarrow> int \<times> string option \<Rightarrow> results \<Rightarrow> error + results" where
  "page_body pdf_filename np acc =
     (case np of (page_num, text) \<Rightarrow>
        if truthy text then process_page pdf_filename (the text) page_num acc else Inr acc)"

definition PDFProcessor_process :: "string \<Rightarrow> string option list \<Rightarrow> error + results" where
  "PDFProcessor_process pdf_filename pages =
     for_loop (page_body pdf_filename) (enumerate1 pages) ([], [])"

section \<open>PayslipProcessor and main\<close>

text \<open>
  The outside world is the console and the files written. A console line is kept as
  the kind of message with the values printed in it; a data frame is its list of rows,
  one per record. \<open>find_pdf_files\<close> is the result of the glob, given as the list of the
  documents found. An exception that nothing catches ends the run: the model then
  gives the error alone.
\<close>

datatype message =
    NoPdfFound
  | FoundPdfFiles nat
  | Processing string
  | PaymentCount nat
  | SummaryCount nat
  | NoDataExtracted
  | Saved string nat nat
  | Statistics "PaymentRecord list" "SummaryRecord list"
  | SampleData "PaymentRecord list"

record world =
  console :: "message list"
  files :: "(string \<times> results) list"

record document =
  name :: string
  pages :: "string option list"

record driver =
  out :: world
  all_payments :: "PaymentRecord list"
  all_summaries :: "SummaryRecord list"

definition print :: "message \<Rightarrow> world \<Rightarrow> world" where
  "print m w = w\<lparr>console := console w @ [m]\<rparr>"

definition save_to_excel :: "results \<Rightarrow> string \<Rightarrow> world \<Rightarrow> world" where
  "save_to_excel frames output_file w = w\<lparr>files := files w @ [(output_file, frames)]\<rparr>"

definition process_single_pdf :: "document \<Rightarrow> driver \<Rightarrow> error + driver" where
  "process_single_pdf pdf d =
     (let w1 = print (Processing (name pdf)) (out d)
      in case PDFProcessor_process (name pdf) (pages pdf) of
           Inl e \<Rightarrow> Inl e
         | Inr (ps, ss) \<Rightarrow>
             Inr \<lparr>out = print (SummaryCount (length ss)) (print (PaymentCount (length ps)) w1),
                  all_payments = all_payments d @ ps,
                  all_summaries = all_summaries d @ ss\<rparr>)"

definition process_all_pdfs :: "document list \<Rightarrow> world \<Rightarrow> error + world \<times> results" where
  "process_all_pdfs pdf_files w =
     (if pdf_files = [] then Inr (print NoPdfFound w, ([], []))
      else case for_loop process_single_pdf pdf_files
                  \<lparr>out = print (FoundPdfFiles (length pdf_files)) w,
                   all_payments = [], all_summaries = []\<rparr> of
             Inl e \<Rightarrow> Inl e
           | Inr d \<Rightarrow>
               if all_payments d \<noteq> [] then Inr (out d, (all_payments d, all_summaries d))
               else Inr (print NoDataExtracted (out d), ([], [])))"

definition main :: "document list \<Rightarrow> world \<Rightarrow> error + world \<times> results option" where
  "main pdf_files w =
     (case process_all_pdfs pdf_files w of
        Inl e \<Rightarrow> Inl e
      | Inr (w1, (payments_df, summaries_df)) \<Rightarrow>
          if payments_df \<noteq> [] then
            (let output_file = ''payslip_details.xlsx'';
                 w2 = save_to_excel (payments_df, summaries_df) output_file w1;
                 w3 = print (Saved output_file (length payments_df) (length summaries_df)) w2;
                 w4 = print (Statistics payments_df summaries_df) w3;
                 w5 = print (SampleData (take 10 payments_df)) w4
             in Inr (w5, Some (payments_df, summaries_df)))
          else Inr (w1, None))"

section \<open>PaymentParser.extract on a store\<close>

text \<open>
  To speak of what a call changes, the objects the call can reach are put in a store:
  a list of objects, a reference being an index. The caller holds the list of lines and
  the PayPeriodInfo; \<open>payments = []\<close> allocates a new list, \<open>payments.append\<close> updates
  it in place, and the call returns its reference. The store comes back with the result
  also when the call raises.
\<close>

datatype obj = Lines "string list" | Info PayPeriodInfo | Records "PaymentRecord list"

type_synonym store = "obj list"

definition alloc :: "obj \<Rightarrow> store \<Rightarrow> nat \<times> store" where
  "alloc v h = (length h, h @ [v])"

definition lines_at :: "store \<Rightarrow> nat \<Rightarrow> string list" where
  "lines_at h r = (case h ! r of Lines ls \<Rightarrow> ls | _ \<Rightarrow> [])"

definition info_at :: "store \<Rightarrow> nat \<Rightarrow> PayPeriodInfo" where
  "info_at h r = (case h ! r of Info i \<Rightarrow> i | _ \<Rightarrow> \<lparr>period = None, paid_date = None\<rparr>)"

definition records_at :: "store \<Rightarrow> nat \<Rightarrow> PaymentRecord list" where
  "records_at h r = (case h ! r of Records ps \<Rightarrow> ps | _ \<Rightarrow> [])"

definition append_at :: "nat \<Rightarrow> PaymentRecord \<Rightarrow> store \<Rightarrow> store" where
  "append_at r p h = h[r := Records (records_at h r @ [p])]"

definition payment_step_st ::
  "nat \<Rightarrow> string \<Rightarrow> int \<Rightarrow> nat \<Rightarrow> nat \<Rightarrow> nat \<Rightarrow> store \<times> bool \<times> bool
     \<Rightarrow> error \<times> store + store \<times> bool \<times> bool" where
  \<comment> \<open>the loop body at index \<open>i\<close>; the state is the store, \<open>in_payments_section\<close> and
      whether \<open>break\<close> was taken\<close>
  "payment_step_st lines_ref pdf_filename page_num info_ref payments_ref i st =
     (case st of (h, in_section, stop) \<Rightarrow>
        if stop then Inr st
        else if section_start (lines_at h lines_ref) i then Inr (h, True, stop)
        else if in_section then
          (if section_end (lines_at h lines_ref ! i) then Inr (h, in_section, True)
           else case re_match PAYMENT_PATTERN (lines_at h lines_ref ! i) of
                  None \<Rightarrow> Inr st
                | Some m \<Rightarrow>
                    (case make_payment pdf_filename page_num (info_at h info_ref) m of
                       Inl e \<Rightarrow> Inl (e, h)
                     | Inr payment \<Rightarrow> Inr (append_at payments_ref payment h, in_section, stop)))
        else Inr st)"

definition PaymentParser_extract_st ::
  "store \<Rightarrow> nat \<Rightarrow> string \<Rightarrow> int \<Rightarrow> nat \<Rightarrow> store \<times> (error + nat)" where
  "PaymentParser_extract_st h lines_ref pdf_filename page_num info_ref =
     (let payments_ref = fst (alloc (Records []) h);
          h1 = snd (alloc (Records []) h)
      in case for_loop (payment_step_st lines_ref pdf_filename page_num info_ref payments_ref)
                       [0..<length (lines_at h1 lines_ref)] (h1, False, False) of
           Inl (e, h2) \<Rightarrow> (h2, Inl e)
         | Inr (h2, _, _) \<Rightarrow> (h2, Inr payments_ref))"

section \<open>Notions used in the statements\<close>

fun group_classes :: "item list \<Rightarrow> cls list" where
  \<comment> \<open>the classes of the capturing groups of a pattern, in order\<close>
  "group_classes [] = []"
| "group_classes (Group g c # r) = c # group_classes r"
| "group_classes (x # r) = group_classes r"

fun fill :: "item list \<Rightarrow> string list \<Rightarrow> string" where
  \<comment> \<open>the text a pattern without uncaptured repetitions matches, given its groups\<close>
  "fill [] gs = []"
| "fill (Lit l # r) gs = l @ fill r gs"
| "fill (Group g c # r) gs = (case gs of [] \<Rightarrow> [] | x # xs \<Rightarrow> x @ fill r xs)"
| "fill (Bol # r) gs = fill r gs"
| "fill (Eol # r) gs = fill r gs"
| "fill (Plus g c # r) gs = fill r gs"

fun no_plus :: "item list \<Rightarrow> bool" where
  "no_plus [] = True"
| "no_plus (Plus g c # r) = False"
| "no_plus (x # r) = no_plus r"

definition pay_period_line :: "string \<Rightarrow> bool" where
  \<comment> \<open>a line on which \<open>PayPeriodParser.extract\<close> returns\<close>
  "pay_period_line l =
     (contains ''Pay Period'' l \<and> contains ''Paid'' l \<and> re_search PAY_PERIOD_PATTERN l \<noteq> None)"

definition gross_pay_line :: "string \<Rightarrow> bool" where
  \<comment> \<open>a line on which \<open>SummaryParser.extract\<close> assigns \<open>gross_pay\<close>\<close>
  "gross_pay_line l =
     (startswith (strip l) ''Gross Pay'' \<and> re_search GROSS_PAY_PATTERN l \<noteq> None)"

section \<open>Basic facts\<close>

lemma first_some_None: "first_some xs = None \<longleftrightarrow> (\<forall>x\<in>set xs. x = None)"
  by (induction xs rule: first_some.induct) auto

lemma upt_small: "[0..<2] = [0, 1]" "[0..<3] = [0, 1, 2]"
  by (simp_all add: upt_rec)

section \<open>SummaryParser: the Tax line\<close>

lemma tax_pattern_needs_prefix:
  "\<not> startswith line ''Tax'' \<Longrightarrow> re_search TAX_PATTERN line = None"
  by (auto simp: re_search_def first_some_None TAX_PATTERN_def startswith_def)

lemma summary_step_tax:
  "summary_step line s = Inr s' \<Longrightarrow> tax s' = tax s \<and> ytd_tax s' = ytd_tax s"
  by (auto simp: summary_step_def Let_def tax_pattern_needs_prefix
           split: if_splits option.splits sum.splits prod.splits)

lemma for_loop_summary_tax:
  "for_loop summary_step lines s = Inr s' \<Longrightarrow> tax s' = tax s \<and> ytd_tax s' = ytd_tax s"
proof (induction lines arbitrary: s)
  case Nil
  then show ?case by simp
next
  case (Cons l ls)
  then obtain s1 where a: "summary_step l s = Inr s1"
    and b: "for_loop summary_step ls s1 = Inr s'"
    by (auto split: sum.splits)
  from Cons.IH [OF b] summary_step_tax [OF a] show ?case by simp
qed

lemma tax_never_set:
  "SummaryParser_extract lines f p i = Inr s \<Longrightarrow> tax s = None \<and> ytd_tax s = None"
  using for_loop_summary_tax [of lines "summary_init f p i" s]
  by (simp add: SummaryParser_extract_def summary_init_def)

text \<open>
  Claim C1. An indented Tax line with two amounts should set \<open>tax\<close> and \<open>ytd_tax\<close>. On the
  page whose only line is \<open>"  Tax 100.00 2000.00"\<close> the guard of the Tax branch holds
  (the trimmed line starts with Tax, the raw line does not), but \<open>TAX_PATTERN\<close> is
  anchored at the start of the raw line, so the search finds nothing: the record comes
  back as it was seeded, with \<open>tax\<close> and \<open>ytd_tax\<close> unset.
\<close>

theorem indented_tax_line_sets_nothing:
  "startswith (strip ''  Tax 100.00 2000.00'') ''Tax'' \<and>
   \<not> startswith ''  Tax 100.00 2000.00'' ''Tax'' \<and>
   SummaryParser_extract [''  Tax 100.00 2000.00''] f p i = Inr (summary_init f p i) \<and>
   tax (summary_init f p i) = None \<and> ytd_tax (summary_init f p i) = None"
  by code_simp

section \<open>PaymentParser: one payment line\<close>

lemma payline_match:
  "re_match PAYMENT_PATTERN ''CAS OrdPay (incCASloading) 7.6 45.50 01Jul24 345.80''
     = Some [''7.6'', ''45.50'', ''01Jul24'', ''345.80'']"
  by code_simp

lemma payline_not_marker:
  "\<not> startswith (strip ''CAS OrdPay (incCASloading) 7.6 45.50 01Jul24 345.80'') ''Payments''"
  "\<not> section_end ''CAS OrdPay (incCASloading) 7.6 45.50 01Jul24 345.80''"
  by code_simp+

lemma payline_record:
  "make_payment f p i [''7.6'', ''45.50'', ''01Jul24'', ''345.80''] =
     Inr \<lparr>PaymentRecord.pdf_file = f, page = p, pay_period = period i,
          paid_date = PayPeriodInfo.paid_date i, work_date = ''2024-07-01'',
          hours = 76 / 10, rate = 4550 / 100, amount = 34580 / 100\<rparr>"
  by code_simp

text \<open>
  Claim C4. The lines are a header \<open>h\<close> that starts with Payments, with Hours either in
  \<open>h\<close> itself or in the one line \<open>n\<close> that follows it (a line that neither ends the section
  nor is a payment line), and then the payment line with hours 7.6, rate 45.50,
  reference date 01Jul24 and amount 345.80. The parser returns exactly one record, with
  these numbers, the work date 2024-07-01, and the period and paid date of the
  PayPeriodInfo it was given.
\<close>

theorem single_payment_line:
  assumes "startswith (strip h) ''Payments''"
    and "(contains ''Hours'' h \<and> mid = []) \<or>
         (\<exists>n. mid = [n] \<and> contains ''Hours'' n \<and> \<not> section_end n \<and>
              re_match PAYMENT_PATTERN n = None)"
  shows "PaymentParser_extract
           (h # mid @ [''CAS OrdPay (incCASloading) 7.6 45.50 01Jul24 345.80'']) f p i =
         Inr [\<lparr>PaymentRecord.pdf_file = f, page = p, pay_period = period i,
               paid_date = PayPeriodInfo.paid_date i, work_date = ''2024-07-01'',
               hours = 76 / 10, rate = 4550 / 100, amount = 34580 / 100\<rparr>]"
  using assms(2)
proof (elim disjE conjE exE)
  assume "contains ''Hours'' h" "mid = []"
  then show ?thesis
    using assms(1)
    by (simp add: PaymentParser_extract_def scan_upto_def upt_small payment_step_def
        scan_init_def section_start_def payline_match payline_not_marker payline_record)
next
  fix n
  assume "mid = [n]" "contains ''Hours'' n" "\<not> section_end n"
    "re_match PAYMENT_PATTERN n = None"
  then show ?thesis
    using assms(1)
    by (simp add: PaymentParser_extract_def scan_upto_def upt_small payment_step_def
        scan_init_def section_start_def payline_match payline_not_marker payline_record)
qed

theorem single_payment_line_witness:
  "startswith (strip ''Payments'') ''Payments'' \<and>
   contains ''Hours'' ''Description Hours Rate Reference Amount'' \<and>
   \<not> section_end ''Description Hours Rate Reference Amount'' \<and>
   re_match PAYMENT_PATTERN ''Description Hours Rate Reference Amount'' = None \<and>
   PaymentParser_extract
     [''Payments'', ''Description Hours Rate Reference Amount'',
      ''CAS OrdPay (incCASloading) 7.6 45.50 01Jul24 345.80'']
     ''july.pdf'' 1 \<lparr>period = Some ''01/07/2024 to 14/07/2024'', paid_date = Some ''18/07/2024''\<rparr> =
   Inr [\<lparr>PaymentRecord.pdf_file = ''july.pdf'', page = 1,
         pay_period = Some ''01/07/2024 to 14/07/2024'', paid_date = Some ''18/07/2024'',
         work_date = ''2024-07-01'', hours = 76 / 10, rate = 4550 / 100,
         amount = 34580 / 100\<rparr>]"
proof -
  have a: "startswith (strip ''Payments'') ''Payments''"
    by code_simp
  have b: "contains ''Hours'' ''Description Hours Rate Reference Amount''"
    by code_simp
  have c: "\<not> section_end ''Description Hours Rate Reference Amount''"
    by code_simp
  have d: "re_match PAYMENT_PATTERN ''Description Hours Rate Reference Amount'' = None"
    by code_simp
  show ?thesis
    using a b c d
      single_payment_line [of "''Payments''" "[''Description Hours Rate Reference Amount'']"
        "''july.pdf''" 1
        "\<lparr>period = Some ''01/07/2024 to 14/07/2024'', paid_date = Some ''18/07/2024''\<rparr>"]
    by simp
qed

section \<open>The run with no input documents\<close>

text \<open>
  Claim C8. When the glob finds no document, \<open>process_all_pdfs\<close> returns two empty
  frames and prints one message; \<open>main\<close> then skips the branch that saves, so the files
  of the world are those it started with and the console has that one message more.
\<close>

theorem no_documents_no_output:
  "process_all_pdfs [] w = Inr (w\<lparr>console := console w @ [NoPdfFound]\<rparr>, ([], [])) \<and>
   main [] w = Inr (w\<lparr>console := console w @ [NoPdfFound]\<rparr>, None) \<and>
   files (w\<lparr>console := console w @ [NoPdfFound]\<rparr>) = files w"
  by (simp add: process_all_pdfs_def main_def print_def)

section \<open>Captured groups and the numbers read from them\<close>

lemma first_some_Some: "first_some xs = Some y \<Longrightarrow> Some y \<in> set xs"
  by (induction xs rule: first_some.induct) auto

lemma candidates_bound:
  "n \<in> set (candidates g c s) \<Longrightarrow> 1 \<le> n \<and> n \<le> length (takeWhile (in_cls c) s)"
  by (cases g) (auto simp: candidates_def Let_def)

lemma take_run:
  assumes "n \<le> length (takeWhile P s)"
  shows "\<forall>ch\<in>set (take n s). P ch"
proof -
  have "take n (takeWhile P s @ dropWhile P s) = take n (takeWhile P s)"
    using assms by (subst take_append) simp
  then have "take n s = take n (takeWhile P s)"
    by (simp only: takeWhile_dropWhile_id)
  then show ?thesis by (auto dest: in_set_takeD set_takeWhileD)
qed

lemma take_run_nonempty:
  assumes "1 \<le> n" "n \<le> length (takeWhile P s)"
  shows "take n s \<noteq> []"
  using assms by (cases s) auto

lemma match_here_groups:
  "match_here items pos s = Some gs \<Longrightarrow>
   list_all2 (\<lambda>c g. g \<noteq> [] \<and> (\<forall>ch\<in>set g. in_cls c ch)) (group_classes items) gs"
proof (induction items pos s arbitrary: gs rule: match_here.induct)
  case (1 pos s)
  then show ?case by simp
next
  case (2 l r pos s)
  then show ?case by (auto split: if_splits)
next
  case (3 r pos s)
  then show ?case by (auto split: if_splits)
next
  case (4 r pos s)
  then show ?case by (auto split: if_splits)
next
  case (5 g c r pos s)
  from "5.prems" obtain n where n: "n \<in> set (candidates g c s)"
    and m: "match_here r (pos + n) (drop n s) = Some gs"
    by (auto dest!: first_some_Some)
  from "5.IH" [OF n m] show ?case by simp
next
  case (6 g c r pos s)
  from "6.prems" have "first_some (map (\<lambda>n. map_option (\<lambda>gs. take n s # gs)
      (match_here r (pos + n) (drop n s))) (candidates g c s)) = Some gs"
    by simp
  then have "Some gs \<in> set (map (\<lambda>n. map_option (\<lambda>gs. take n s # gs)
      (match_here r (pos + n) (drop n s))) (candidates g c s))"
    by (rule first_some_Some)
  then obtain n where n: "n \<in> set (candidates g c s)"
    and mo: "Some gs = map_option (\<lambda>gs. take n s # gs) (match_here r (pos + n) (drop n s))"
    by auto
  then obtain gs' where m: "match_here r (pos + n) (drop n s) = Some gs'"
    and gs: "gs = take n s # gs'"
    by (cases "match_here r (pos + n) (drop n s)") auto
  from candidates_bound [OF n] have "take n s \<noteq> []" "\<forall>ch\<in>set (take n s). in_cls c ch"
    using take_run_nonempty take_run by blast+
  with "6.IH" [OF n m] gs show ?case by simp
qed

lemma payment_groups:
  assumes "re_match PAYMENT_PATTERN line = Some m"
  shows "length m = 4 \<and> (\<forall>k\<in>{1, 2, 4}. \<forall>ch\<in>set (group m k). is_digit ch \<or> ch = CHR ''.'')"
proof -
  from match_here_groups [OF assms [unfolded re_match_def]]
  have "list_all2 (\<lambda>c g. g \<noteq> [] \<and> (\<forall>ch\<in>set g. in_cls c ch)) [DigitDot, DigitDot, Word, DigitDot] m"
    by (simp add: PAYMENT_PATTERN_def)
  then show ?thesis
    by (auto simp: list_all2_Cons1 group_def)
qed

lemma set_strip: "set (strip s) \<subseteq> set s"
  unfolding strip_def
  by (metis (no_types) set_dropWhileD set_rev subsetI)

lemma py_float_nonneg:
  assumes "py_float s = Inr v" "\<forall>ch\<in>set s. is_digit ch \<or> ch = CHR ''.''"
  shows "0 \<le> v"
proof -
  have "fst (split_sign (strip s)) = False"
  proof (cases "strip s")
    case Nil
    then show ?thesis by (simp add: split_sign_def)
  next
    case (Cons c r)
    then have "c \<in> set s" using set_strip [of s] by auto
    with assms(2) have "is_digit c \<or> c = CHR ''.''" by blast
    then have "c \<noteq> CHR ''-''" "c \<noteq> CHR ''+''"
      by (auto simp: is_digit_def code_def)
    with Cons show ?thesis by (simp add: split_sign_def)
  qed
  with assms(1) show ?thesis
    by (auto simp: py_float_def Let_def split: prod.splits if_splits)
qed

lemma make_payment_nonneg:
  assumes "re_match PAYMENT_PATTERN line = Some m" "make_payment f p i m = Inr r"
  shows "0 \<le> hours r \<and> 0 \<le> rate r \<and> 0 \<le> amount r"
proof -
  from payment_groups [OF assms(1)]
  have g: "\<forall>ch\<in>set (group m 1). is_digit ch \<or> ch = CHR ''.''"
     "\<forall>ch\<in>set (group m 2). is_digit ch \<or> ch = CHR ''.''"
     "\<forall>ch\<in>set (group m 4). is_digit ch \<or> ch = CHR ''.''"
    by auto
  from assms(2) obtain h ra a where
    "py_float (group m 1) = Inr h" "py_float (group m 2) = Inr ra" "py_float (group m 4) = Inr a"
    "hours r = h" "rate r = ra" "amount r = a"
    by (auto simp: make_payment_def Let_def split: sum.splits)
  with g show ?thesis
    using py_float_nonneg by blast
qed

lemma for_loop_invariant:
  "for_loop body xs s = Inr s' \<Longrightarrow> P s \<Longrightarrow>
   (\<And>x t t'. x \<in> set xs \<Longrightarrow> P t \<Longrightarrow> body x t = Inr t' \<Longrightarrow> P t') \<Longrightarrow> P s'"
proof (induction xs arbitrary: s)
  case Nil
  then show ?case by simp
next
  case (Cons x xs)
  from Cons.prems(1) obtain t where a: "body x s = Inr t" and b: "for_loop body xs t = Inr s'"
    by (cases "body x s") simp_all
  have pt: "P t"
    by (rule Cons.prems(3) [of x s t]) (simp_all add: Cons.prems(2) a)
  show ?case
  proof (rule Cons.IH [OF b pt])
    fix y u u'
    assume "y \<in> set xs" "P u" "body y u = Inr u'"
    then show "P u'"
      using Cons.prems(3) [of y u u'] by simp
  qed
qed

lemma payment_step_cases:
  assumes "payment_step lines f p i k st = Inr st'"
  shows "payments st' = payments st \<or>
         (\<exists>m r. re_match PAYMENT_PATTERN (lines ! k) = Some m \<and> make_payment f p i m = Inr r \<and>
                payments st' = payments st @ [r])"
  using assms
  by (auto simp: payment_step_def split: if_splits option.splits sum.splits)

text \<open>
  Claim C10. Whenever \<open>PaymentParser.extract\<close> returns, every record in the list has
  hours, rate and amount at least 0: the three numbers are read by \<open>float\<close> from groups
  of the payment pattern that hold digits and points only, so no sign can reach it.
\<close>

theorem parsed_amounts_nonneg:
  assumes "PaymentParser_extract lines f p i = Inr ps"
  shows "\<forall>r\<in>set ps. 0 \<le> hours r \<and> 0 \<le> rate r \<and> 0 \<le> amount r"
proof -
  let ?P = "\<lambda>st. \<forall>r\<in>set (payments st). 0 \<le> hours r \<and> 0 \<le> rate r \<and> 0 \<le> amount r"
  from assms obtain st where st: "scan_upto lines f p i (length lines) = Inr st"
    and ps: "ps = payments st"
    by (cases "scan_upto lines f p i (length lines)") (simp_all add: PaymentParser_extract_def)
  have init: "?P scan_init" by (simp add: scan_init_def)
  have "?P st"
  proof (rule for_loop_invariant [where P = ?P, OF st [unfolded scan_upto_def] init])
    fix k t t'
    assume t: "?P t" and s: "payment_step lines f p i k t = Inr t'"
    from payment_step_cases [OF s] consider
      (same) "payments t' = payments t"
      | (more) m r where "re_match PAYMENT_PATTERN (lines ! k) = Some m"
        "make_payment f p i m = Inr r" "payments t' = payments t @ [r]"
      by blast
    then show "?P t'"
    proof cases
      case same
      with t show ?thesis by simp
    next
      case more
      with t make_payment_nonneg [of "lines ! k" m f p i r] show ?thesis by simp
    qed
  qed
  with ps show ?thesis by simp
qed

theorem parsed_amounts_nonneg_witness:
  "PaymentParser_extract
     [''Payments Hours'', ''CAS OrdPay (incCASloading) 7.6 45.50 01Jul24 345.80'']
     ''july.pdf'' 1 \<lparr>period = None, paid_date = None\<rparr> =
   Inr [\<lparr>PaymentRecord.pdf_file = ''july.pdf'', page = 1, pay_period = None, paid_date = None,
         work_date = ''2024-07-01'', hours = 76 / 10, rate = 4550 / 100,
         amount = 34580 / 100\<rparr>] \<and>
   0 \<le> hours \<lparr>PaymentRecord.pdf_file = ''july.pdf'', page = 1, pay_period = None,
         paid_date = None, work_date = ''2024-07-01'', hours = 76 / 10, rate = 4550 / 100,
         amount = 34580 / 100\<rparr> \<and>
   0 \<le> rate \<lparr>PaymentRecord.pdf_file = ''july.pdf'', page = 1, pay_period = None,
         paid_date = None, work_date = ''2024-07-01'', hours = 76 / 10, rate = 4550 / 100,
         amount = 34580 / 100\<rparr> \<and>
   0 \<le> amount \<lparr>PaymentRecord.pdf_file = ''july.pdf'', page = 1, pay_period = None,
         paid_date = None, work_date = ''2024-07-01'', hours = 76 / 10, rate = 4550 / 100,
         amount = 34580 / 100\<rparr>"
proof -
  have e: "PaymentParser_extract
     [''Payments Hours'', ''CAS OrdPay (incCASloading) 7.6 45.50 01Jul24 345.80'']
     ''july.pdf'' 1 \<lparr>period = None, paid_date = None\<rparr> =
   Inr [\<lparr>PaymentRecord.pdf_file = ''july.pdf'', page = 1, pay_period = None, paid_date = None,
         work_date = ''2024-07-01'', hours = 76 / 10, rate = 4550 / 100,
         amount = 34580 / 100\<rparr>]"
    by code_simp
  from parsed_amounts_nonneg [OF e] e show ?thesis by simp
qed

section \<open>PaymentParser: the end of the section\<close>

lemma for_loop_append:
  "for_loop body (xs @ ys) s =
     (case for_loop body xs s of Inl e \<Rightarrow> Inl e | Inr s' \<Rightarrow> for_loop body ys s')"
  by (induction xs arbitrary: s) (simp_all split: sum.splits)

lemma for_loop_cong:
  "(\<And>x t. x \<in> set xs \<Longrightarrow> body x t = body' x t) \<Longrightarrow> for_loop body xs s = for_loop body' xs s"
  by (induction xs arbitrary: s) (simp_all split: sum.splits)

lemma stopped_stays:
  "stopped st \<Longrightarrow> for_loop (payment_step lines f p i) ks st = Inr st"
  by (induction ks) (simp_all add: payment_step_def)

lemma end_is_not_start:
  assumes "section_end line"
  shows "\<not> startswith (strip line) ''Payments''"
  using assms by (cases "strip line") (auto simp: section_end_def startswith_def)

lemma payment_step_prefix:
  assumes "k < length pre"
  shows "payment_step (pre @ t # post) f p i k st = payment_step (pre @ t # post') f p i k st"
proof -
  have a: "(pre @ t # post) ! k = (pre @ t # post') ! k"
    using assms by (simp add: nth_append)
  have b: "(pre @ t # post) ! (k + 1) = (pre @ t # post') ! (k + 1)"
    using assms by (cases "k + 1 < length pre") (auto simp: nth_append)
  have c: "k + 1 < length (pre @ t # post)" "k + 1 < length (pre @ t # post')"
    using assms by simp_all
  have "section_start (pre @ t # post) k = section_start (pre @ t # post') k"
    unfolding section_start_def using a b c by simp
  with a show ?thesis
    by (simp add: payment_step_def)
qed

lemma scan_upto_prefix:
  "scan_upto (pre @ t # post) f p i (length pre) = scan_upto (pre @ t # post') f p i (length pre)"
  unfolding scan_upto_def
  by (rule for_loop_cong) (simp add: payment_step_prefix)

lemma upt_split3:
  "k < n \<Longrightarrow> [0..<n] = [0..<k] @ k # [Suc k..<n]"
  by (metis upt_conv_Cons upt_add_eq_append le_add_diff_inverse less_imp_le zero_le)

text \<open>
  Claim C3. Let the scan of the lines before \<open>t\<close> end inside the Payments section (the
  flag is set and no \<open>break\<close> was taken), and let the trimmed \<open>t\<close> start with Deductions
  or Benefits. Then the parser returns exactly the records collected before \<open>t\<close>,
  whatever lines \<open>post'\<close> follow \<open>t\<close>: neither \<open>t\<close> nor any later line adds a record.
\<close>

theorem end_marker_stops_scan:
  assumes "scan_upto (pre @ t # post) f p i (length pre) = Inr st"
    and "in_payments_section st" and "\<not> stopped st" and "section_end t"
  shows "PaymentParser_extract (pre @ t # post') f p i = Inr (payments st)"
proof -
  let ?ls = "pre @ t # post'"
  let ?k = "length pre"
  have pre: "for_loop (payment_step ?ls f p i) [0..<?k] scan_init = Inr st"
    using assms(1) scan_upto_prefix [of pre t post f p i post'] by (simp add: scan_upto_def)
  have "\<not> section_start ?ls ?k"
    using end_is_not_start [OF assms(4)] by (simp add: section_start_def)
  then have at: "payment_step ?ls f p i ?k st = Inr (st\<lparr>stopped := True\<rparr>)"
    using assms(2,3,4) by (simp add: payment_step_def)
  have split: "[0..<length ?ls] = [0..<?k] @ ?k # [Suc ?k..<length ?ls]"
    by (rule upt_split3) simp
  have "for_loop (payment_step ?ls f p i) [0..<length ?ls] scan_init = Inr (st\<lparr>stopped := True\<rparr>)"
    by (simp only: split for_loop_append pre sum.case for_loop.simps at)
       (simp add: stopped_stays)
  then show ?thesis
    by (simp add: PaymentParser_extract_def scan_upto_def)
qed

theorem end_marker_stops_scan_witness:
  "scan_upto [''Payments Hours'', ''CAS OrdPay (incCASloading) 7.6 45.50 01Jul24 345.80'',
              ''Deductions'', ''CAS OrdPay (incCASloading) 1.0 45.50 02Jul24 45.50'']
     ''july.pdf'' 1 \<lparr>period = None, paid_date = None\<rparr> 2 =
   Inr \<lparr>in_payments_section = True, stopped = False,
        payments = [\<lparr>PaymentRecord.pdf_file = ''july.pdf'', page = 1, pay_period = None,
          paid_date = None, work_date = ''2024-07-01'', hours = 76 / 10, rate = 4550 / 100,
          amount = 34580 / 100\<rparr>]\<rparr> \<and>
   section_end ''Deductions'' \<and>
   PaymentParser_extract
     [''Payments Hours'', ''CAS OrdPay (incCASloading) 7.6 45.50 01Jul24 345.80'',
      ''Deductions'', ''CAS OrdPay (incCASloading) 1.0 45.50 02Jul24 45.50'']
     ''july.pdf'' 1 \<lparr>period = None, paid_date = None\<rparr> =
   Inr [\<lparr>PaymentRecord.pdf_file = ''july.pdf'', page = 1, pay_period = None,
          paid_date = None, work_date = ''2024-07-01'', hours = 76 / 10, rate = 4550 / 100,
          amount = 34580 / 100\<rparr>]"
proof -
  let ?st = "\<lparr>in_payments_section = True, stopped = False,
        payments = [\<lparr>PaymentRecord.pdf_file = ''july.pdf'', page = 1, pay_period = None,
          paid_date = None, work_date = ''2024-07-01'', hours = 76 / 10, rate = 4550 / 100,
          amount = 34580 / 100\<rparr>]\<rparr>"
  have a: "scan_upto ([''Payments Hours'', ''CAS OrdPay (incCASloading) 7.6 45.50 01Jul24 345.80''] @
              ''Deductions'' # [''CAS OrdPay (incCASloading) 1.0 45.50 02Jul24 45.50''])
     ''july.pdf'' 1 \<lparr>period = None, paid_date = None\<rparr>
     (length [''Payments Hours'', ''CAS OrdPay (incCASloading) 7.6 45.50 01Jul24 345.80'']) = Inr ?st"
    by code_simp
  have d: "section_end ''Deductions''"
    by code_simp
  have b: "in_payments_section ?st" "\<not> stopped ?st"
    by simp_all
  from end_marker_stops_scan [OF a b d,
      of "[''CAS OrdPay (incCASloading) 1.0 45.50 02Jul24 45.50'']"] a d
  show ?thesis by (simp add: numeral_2_eq_2)
qed

section \<open>PayPeriodParser\<close>

lemma match_here_fill:
  "no_plus items \<Longrightarrow> match_here items pos s = Some gs \<Longrightarrow> \<exists>rest. s = fill items gs @ rest"
proof (induction items pos s arbitrary: gs rule: match_here.induct)
  case (1 pos s)
  then show ?case by simp
next
  case (2 l r pos s)
  from "2.prems" have sw: "startswith s l"
    and m: "match_here r (pos + length l) (drop (length l) s) = Some gs"
    by (auto split: if_splits)
  from "2.IH" [OF sw _ m] "2.prems"(1) obtain rest where "drop (length l) s = fill r gs @ rest"
    by auto
  moreover have "s = l @ drop (length l) s"
    using sw by (metis append_take_drop_id startswith_def)
  ultimately show ?case by (metis append.assoc fill.simps(2))
next
  case (3 r pos s)
  then show ?case by (auto split: if_splits)
next
  case (4 r pos s)
  then show ?case by (auto split: if_splits)
next
  case (5 g c r pos s)
  then show ?case by simp
next
  case (6 g c r pos s)
  from "6.prems"(2) have "first_some (map (\<lambda>n. map_option (\<lambda>gs. take n s # gs)
      (match_here r (pos + n) (drop n s))) (candidates g c s)) = Some gs"
    by simp
  then have "Some gs \<in> set (map (\<lambda>n. map_option (\<lambda>gs. take n s # gs)
      (match_here r (pos + n) (drop n s))) (candidates g c s))"
    by (rule first_some_Some)
  then obtain n where n: "n \<in> set (candidates g c s)"
    and mo: "Some gs = map_option (\<lambda>gs. take n s # gs) (match_here r (pos + n) (drop n s))"
    by auto
  then obtain gs' where m: "match_here r (pos + n) (drop n s) = Some gs'"
    and gs: "gs = take n s # gs'"
    by (cases "match_here r (pos + n) (drop n s)") auto
  from "6.IH" [OF n _ m] "6.prems"(1) obtain rest where "drop n s = fill r gs' @ rest"
    by auto
  then have "s = take n s @ fill r gs' @ rest"
    by (metis append_take_drop_id)
  with gs show ?case by auto
qed

lemma re_search_Some:
  assumes "re_search p s = Some m"
  shows "\<exists>k. match_here p k (drop k s) = Some m"
proof -
  from assms have "Some m \<in> set (map (\<lambda>k. match_here p k (drop k s)) [0..<Suc (length s)])"
    unfolding re_search_def by (rule first_some_Some)
  then have "Some m \<in> (\<lambda>k. match_here p k (drop k s)) ` set [0..<Suc (length s)]"
    by (simp only: set_map)
  then obtain k where "Some m = match_here p k (drop k s)"
    by (rule imageE)
  then have "match_here p k (drop k s) = Some m"
    by simp
  then show ?thesis ..
qed

lemma pay_period_groups:
  assumes "re_search PAY_PERIOD_PATTERN l = Some m"
  shows "\<exists>x y z a b. m = [x, y, z] \<and>
           l = a @ ''Pay Period '' @ x @ '' to '' @ y @ '' Paid '' @ z @ b"
proof -
  from re_search_Some [OF assms] obtain k
    where k: "match_here PAY_PERIOD_PATTERN k (drop k l) = Some m"
    by blast
  from match_here_groups [OF k] obtain x y z where m: "m = [x, y, z]"
    by (auto simp: PAY_PERIOD_PATTERN_def list_all2_Cons1)
  have "no_plus PAY_PERIOD_PATTERN"
    by (simp add: PAY_PERIOD_PATTERN_def)
  from match_here_fill [OF this k] obtain rest
    where "drop k l = fill PAY_PERIOD_PATTERN m @ rest"
    by blast
  then have "drop k l = ''Pay Period '' @ x @ '' to '' @ y @ '' Paid '' @ z @ rest"
    by (simp add: PAY_PERIOD_PATTERN_def m)
  then have "l = take k l @ ''Pay Period '' @ x @ '' to '' @ y @ '' Paid '' @ z @ rest"
    by (metis append_take_drop_id)
  with m show ?thesis by blast
qed

lemma extract_skips:
  "\<forall>l'\<in>set pre. \<not> pay_period_line l' \<Longrightarrow>
   PayPeriodParser_extract (pre @ rest) = PayPeriodParser_extract rest"
  by (induction pre) (auto simp: pay_period_line_def split: option.splits)

text \<open>
  Claim C5. Call a line a pay-period line when it contains "Pay Period" and "Paid" and
  the pay-period pattern matches on it. If no line before \<open>l\<close> is one and \<open>l\<close> is one, with
  groups \<open>m\<close>, then \<open>m\<close> is three texts x, y, z that stand in \<open>l\<close> as
  "Pay Period x to y Paid z", and the result is period "x to y" and paid date z, whatever
  lines follow. If no line at all is a pay-period line, both fields are unset.
\<close>

theorem pay_period_from_first_match:
  "((\<forall>l'\<in>set pre. \<not> pay_period_line l') \<and> contains ''Pay Period'' l \<and> contains ''Paid'' l \<and>
    re_search PAY_PERIOD_PATTERN l = Some m \<longrightarrow>
      (\<exists>x y z a b. m = [x, y, z] \<and>
         l = a @ ''Pay Period '' @ x @ '' to '' @ y @ '' Paid '' @ z @ b \<and>
         PayPeriodParser_extract (pre @ l # post) =
           \<lparr>period = Some (x @ '' to '' @ y), paid_date = Some z\<rparr>)) \<and>
   ((\<forall>l'\<in>set lines. \<not> pay_period_line l') \<longrightarrow>
      PayPeriodParser_extract lines = \<lparr>period = None, paid_date = None\<rparr>)"
proof (intro conjI impI)
  assume h: "(\<forall>l'\<in>set pre. \<not> pay_period_line l') \<and> contains ''Pay Period'' l \<and>
    contains ''Paid'' l \<and> re_search PAY_PERIOD_PATTERN l = Some m"
  from pay_period_groups [of l m] h obtain x y z a b where m: "m = [x, y, z]"
    and l: "l = a @ ''Pay Period '' @ x @ '' to '' @ y @ '' Paid '' @ z @ b"
    by blast
  have "PayPeriodParser_extract (pre @ l # post) = PayPeriodParser_extract (l # post)"
    using h by (simp add: extract_skips)
  also have "\<dots> = \<lparr>period = Some (x @ '' to '' @ y), paid_date = Some z\<rparr>"
    using h m by (simp add: group_def)
  finally show "\<exists>x y z a b. m = [x, y, z] \<and>
         l = a @ ''Pay Period '' @ x @ '' to '' @ y @ '' Paid '' @ z @ b \<and>
         PayPeriodParser_extract (pre @ l # post) =
           \<lparr>period = Some (x @ '' to '' @ y), paid_date = Some z\<rparr>"
    using m l by blast
next
  assume "\<forall>l'\<in>set lines. \<not> pay_period_line l'"
  then show "PayPeriodParser_extract lines = \<lparr>period = None, paid_date = None\<rparr>"
    using extract_skips [of lines "[]"] by simp
qed

theorem pay_period_from_first_match_witness:
  "PayPeriodParser_extract
     [''Employee 1234'', ''Pay Period 01/07/2024 to 14/07/2024 Paid 18/07/2024'',
      ''Pay Period 15/07/2024 to 28/07/2024 Paid 01/08/2024''] =
     \<lparr>period = Some ''01/07/2024 to 14/07/2024'', paid_date = Some ''18/07/2024''\<rparr> \<and>
   PayPeriodParser_extract [''Employee 1234''] = \<lparr>period = None, paid_date = None\<rparr>"
proof -
  have a: "\<not> pay_period_line ''Employee 1234''"
    by code_simp
  have b: "contains ''Pay Period'' ''Pay Period 01/07/2024 to 14/07/2024 Paid 18/07/2024''"
    "contains ''Paid'' ''Pay Period 01/07/2024 to 14/07/2024 Paid 18/07/2024''"
    by code_simp+
  have c: "re_search PAY_PERIOD_PATTERN ''Pay Period 01/07/2024 to 14/07/2024 Paid 18/07/2024'' =
    Some [''01/07/2024'', ''14/07/2024'', ''18/07/2024'']"
    by code_simp
  have pre: "\<forall>l'\<in>set [''Employee 1234'']. \<not> pay_period_line l'"
    using a by simp
  note t = pay_period_from_first_match [of "[''Employee 1234'']"
      "''Pay Period 01/07/2024 to 14/07/2024 Paid 18/07/2024''"
      "[''01/07/2024'', ''14/07/2024'', ''18/07/2024'']"
      "[''Pay Period 15/07/2024 to 28/07/2024 Paid 01/08/2024'']" "[''Employee 1234'']"]
  from t pre b c obtain x y z where xyz: "[''01/07/2024'', ''14/07/2024'', ''18/07/2024''] = [x, y, z]"
    and e: "PayPeriodParser_extract ([''Employee 1234''] @
        ''Pay Period 01/07/2024 to 14/07/2024 Paid 18/07/2024'' #
        [''Pay Period 15/07/2024 to 28/07/2024 Paid 01/08/2024'']) =
      \<lparr>period = Some (x @ '' to '' @ y), paid_date = Some z\<rparr>"
    by blast
  from xyz have x: "x = ''01/07/2024''" and y: "y = ''14/07/2024''" and z: "z = ''18/07/2024''"
    by simp_all
  have first: "PayPeriodParser_extract
     [''Employee 1234'', ''Pay Period 01/07/2024 to 14/07/2024 Paid 18/07/2024'',
      ''Pay Period 15/07/2024 to 28/07/2024 Paid 01/08/2024''] =
     \<lparr>period = Some ''01/07/2024 to 14/07/2024'', paid_date = Some ''18/07/2024''\<rparr>"
    using e unfolding x y z by (simp only: append_Cons append_Nil)
  from t pre have second:
    "PayPeriodParser_extract [''Employee 1234''] = \<lparr>period = None, paid_date = None\<rparr>"
    by blast
  from first second show ?thesis by (rule conjI)
qed

section \<open>SummaryParser: the Gross Pay line\<close>

lemma first_some_append:
  "first_some (xs @ ys) = (case first_some xs of None \<Rightarrow> first_some ys | Some v \<Rightarrow> Some v)"
  by (induction xs rule: first_some.induct) simp_all

lemma first_some_at:
  assumes "j < n" "f j = Some v" "\<forall>k<j. f k = None"
  shows "first_some (map f [0..<n]) = Some v"
proof -
  have "[0..<n] = [0..<j] @ j # [Suc j..<n]"
    using assms(1) by (metis upt_conv_Cons upt_add_eq_append le_add_diff_inverse less_imp_le zero_le)
  moreover have "first_some (map f [0..<j]) = None"
    using assms(3) by (simp add: first_some_None)
  ultimately show ?thesis
    using assms(2) by (simp add: first_some_append)
qed

lemma takeWhile_run:
  assumes "\<forall>c\<in>set run. P c" "t = [] \<or> \<not> P (hd t)"
  shows "takeWhile P (run @ t) = run"
proof -
  have "takeWhile P t = []"
    using assms(2) by (cases t) auto
  with assms(1) show ?thesis
    by (simp add: takeWhile_append2)
qed

lemma greedy_candidates:
  assumes "run \<noteq> []" "\<forall>c\<in>set run. in_cls cl c" "t = [] \<or> \<not> in_cls cl (hd t)"
  shows "candidates Greedy cl (run @ t) = length run # rev [1..<length run]"
proof -
  have "[1..<Suc (length run)] = [1..<length run] @ [length run]"
    using assms(1) by (cases run) simp_all
  then show ?thesis
    using takeWhile_run [OF assms(2,3)] by (simp add: candidates_def Let_def)
qed

lemma plus_greedy_max:
  assumes "run \<noteq> []" "\<forall>c\<in>set run. in_cls cl c" "t = [] \<or> \<not> in_cls cl (hd t)"
    and "match_here r (pos + length run) t = Some gs"
  shows "match_here (Plus Greedy cl # r) pos (run @ t) = Some gs"
  using assms(4) by (simp add: greedy_candidates [OF assms(1,2,3)])

lemma group_greedy_max:
  assumes "run \<noteq> []" "\<forall>c\<in>set run. in_cls cl c" "t = [] \<or> \<not> in_cls cl (hd t)"
    and "match_here r (pos + length run) t = Some gs"
  shows "match_here (Group Greedy cl # r) pos (run @ t) = Some (run # gs)"
  using assms(4) by (simp add: greedy_candidates [OF assms(1,2,3)])

lemma digit_dot_not_space: "is_digit c \<or> c = CHR ''.'' \<Longrightarrow> \<not> is_space c"
  by (auto simp: is_digit_def is_space_def code_def Let_def)

lemma two_numbers_match:
  assumes sp1: "sp1 \<noteq> []" "\<forall>c\<in>set sp1. is_space c"
    and n1: "n1 \<noteq> []" "\<forall>c\<in>set n1. is_digit c \<or> c = CHR ''.''"
    and sp2: "sp2 \<noteq> []" "\<forall>c\<in>set sp2. is_space c"
    and n2: "n2 \<noteq> []" "\<forall>c\<in>set n2. is_digit c \<or> c = CHR ''.''"
    and rest: "rest = [] \<or> \<not> (is_digit (hd rest) \<or> hd rest = CHR ''.'')"
  shows "match_here [Plus Greedy Space, Group Greedy DigitDot, Plus Greedy Space,
           Group Greedy DigitDot] pos (sp1 @ n1 @ sp2 @ n2 @ rest) = Some [n1, n2]"
proof -
  have h1: "\<not> is_space (hd (n1 @ sp2 @ n2 @ rest))"
    using n1 digit_dot_not_space [of "hd n1"] by (cases n1) auto
  have h2: "\<not> in_cls DigitDot (hd (sp2 @ n2 @ rest))"
    using sp2 digit_dot_not_space [of "hd sp2"] by (cases sp2) auto
  have h3: "\<not> is_space (hd (n2 @ rest))"
    using n2 digit_dot_not_space [of "hd n2"] by (cases n2) auto
  have a: "match_here [Group Greedy DigitDot] p4 (n2 @ rest) = Some [n2]" for p4
    by (rule group_greedy_max) (use n2 rest in auto)
  have b: "match_here [Plus Greedy Space, Group Greedy DigitDot] p3 (sp2 @ n2 @ rest) = Some [n2]" for p3
    by (rule plus_greedy_max) (use sp2 h3 a in auto)
  have c: "match_here [Group Greedy DigitDot, Plus Greedy Space, Group Greedy DigitDot] p2
      (n1 @ sp2 @ n2 @ rest) = Some [n1, n2]" for p2
    by (rule group_greedy_max) (use n1 h2 b in auto)
  show ?thesis
    by (rule plus_greedy_max) (use sp1 h1 c in auto)
qed

lemma space_prefix_no_literal:
  assumes "k < length ws" "\<forall>c\<in>set ws. is_space c" "lit \<noteq> []" "\<not> is_space (hd lit)"
  shows "\<not> startswith (drop k (ws @ x)) lit"
proof
  assume s: "startswith (drop k (ws @ x)) lit"
  obtain c cs where d: "drop k ws = c # cs"
    using assms(1) by (cases "drop k ws") auto
  then have "c \<in> set ws" by (metis in_set_dropD list.set_intros(1))
  then have "is_space c" using assms(2) by blast
  moreover have "hd lit = c"
    using s d assms(1,3) by (cases lit) (auto simp: startswith_def)
  ultimately show False using assms(4) by simp
qed

lemma gross_pay_shape:
  assumes ws: "\<forall>c\<in>set ws. is_space c"
    and sp1: "sp1 \<noteq> []" "\<forall>c\<in>set sp1. is_space c"
    and n1: "n1 \<noteq> []" "\<forall>c\<in>set n1. is_digit c \<or> c = CHR ''.''"
    and sp2: "sp2 \<noteq> []" "\<forall>c\<in>set sp2. is_space c"
    and n2: "n2 \<noteq> []" "\<forall>c\<in>set n2. is_digit c \<or> c = CHR ''.''"
    and rest: "rest = [] \<or> \<not> (is_digit (hd rest) \<or> hd rest = CHR ''.'')"
  shows "re_search GROSS_PAY_PATTERN (ws @ ''Gross Pay'' @ sp1 @ n1 @ sp2 @ n2 @ rest) = Some [n1, n2]"
proof -
  let ?x = "''Gross Pay'' @ sp1 @ n1 @ sp2 @ n2 @ rest"
  let ?f = "\<lambda>k. match_here GROSS_PAY_PATTERN k (drop k (ws @ ?x))"
  have g: "\<not> is_space (hd ''Gross Pay'')"
    by (simp add: is_space_def code_def)
  have none: "\<forall>k<length ws. ?f k = None"
  proof (intro allI impI)
    fix k assume "k < length ws"
    from space_prefix_no_literal [OF this ws _ g, of ?x]
    show "?f k = None"
      by (simp add: GROSS_PAY_PATTERN_def)
  qed
  have "match_here GROSS_PAY_PATTERN (length ws) ?x = Some [n1, n2]"
    using two_numbers_match [OF sp1 n1 sp2 n2 rest]
    by (simp add: GROSS_PAY_PATTERN_def startswith_def)
  then have at: "?f (length ws) = Some [n1, n2]"
    by simp
  have "first_some (map ?f [0..<Suc (length (ws @ ?x))]) = Some [n1, n2]"
    by (rule first_some_at [OF _ at none]) simp
  then show ?thesis
    by (simp only: re_search_def)
qed

lemma strip_keeps_prefix:
  assumes "\<forall>c\<in>set ws. is_space c" "lit \<noteq> []" "\<not> is_space (hd lit)"
    and "c \<in> set y" "\<not> is_space c"
  shows "startswith (strip (ws @ lit @ y)) lit"
proof -
  have "dropWhile is_space (ws @ lit @ y) = lit @ y"
    using assms(1,2,3) by (cases lit) (simp_all add: dropWhile_append2)
  moreover have "dropWhile is_space (rev y @ rev lit) = dropWhile is_space (rev y) @ rev lit"
    using assms(4,5) by (simp add: dropWhile_append1)
  ultimately have "strip (ws @ lit @ y) = lit @ rev (dropWhile is_space (rev y))"
    by (simp add: strip_def)
  then show ?thesis
    by (simp add: startswith_def)
qed

lemma summary_step_other:
  assumes "\<not> gross_pay_line l" "summary_step l s = Inr s'"
  shows "gross_pay s' = gross_pay s \<and> ytd_gross_pay s' = ytd_gross_pay s"
proof (cases "startswith (strip l) ''Gross Pay''")
  case True
  with assms(1) have "re_search GROSS_PAY_PATTERN l = None"
    by (simp add: gross_pay_line_def)
  with True assms(2) show ?thesis
    by (simp add: summary_step_def)
next
  case False
  with assms(2) show ?thesis
    by (auto simp: summary_step_def Let_def split: if_splits option.splits sum.splits prod.splits)
qed

lemma summary_loop_other:
  "\<forall>l\<in>set ls. \<not> gross_pay_line l \<Longrightarrow> for_loop summary_step ls s = Inr s' \<Longrightarrow>
   gross_pay s' = gross_pay s \<and> ytd_gross_pay s' = ytd_gross_pay s"
proof (induction ls arbitrary: s)
  case Nil
  then show ?case by simp
next
  case (Cons l ls)
  from Cons.prems(2) obtain s1 where a: "summary_step l s = Inr s1"
    and b: "for_loop summary_step ls s1 = Inr s'"
    by (cases "summary_step l s") simp_all
  from Cons.prems(1) have "\<not> gross_pay_line l" "\<forall>l\<in>set ls. \<not> gross_pay_line l"
    by simp_all
  with Cons.IH [OF _ b] summary_step_other [OF _ a] show ?case by simp
qed

lemma summary_step_gross:
  assumes "startswith (strip l) ''Gross Pay''" "re_search GROSS_PAY_PATTERN l = Some [n1, n2]"
    and "py_float n1 = Inr a" "py_float n2 = Inr b"
  shows "summary_step l s = Inr (s\<lparr>gross_pay := Some a, ytd_gross_pay := Some b\<rparr>)"
  using assms by (simp add: summary_step_def two_floats_def group_def)

text \<open>
  Claim C6. Let \<open>l\<close> be white space, "Gross Pay", white space, a number \<open>n1\<close>, white space,
  a number \<open>n2\<close> and then text that does not go on with a digit or a point, where \<open>float\<close>
  reads \<open>n1\<close> as \<open>a\<close> and \<open>n2\<close> as \<open>b\<close>. If no later line of the page is a Gross Pay line on
  which the pattern matches, the record returned has \<open>gross_pay = a\<close> and
  \<open>ytd_gross_pay = b\<close>, whatever earlier lines assigned: the last matching line decides.
\<close>

theorem gross_pay_last_match:
  assumes "SummaryParser_extract (pre @ l # post) f p i = Inr s"
    and "l = ws @ ''Gross Pay'' @ sp1 @ n1 @ sp2 @ n2 @ rest"
    and "\<forall>c\<in>set ws. is_space c"
    and "sp1 \<noteq> []" "\<forall>c\<in>set sp1. is_space c"
    and "n1 \<noteq> []" "\<forall>c\<in>set n1. is_digit c \<or> c = CHR ''.''"
    and "sp2 \<noteq> []" "\<forall>c\<in>set sp2. is_space c"
    and "n2 \<noteq> []" "\<forall>c\<in>set n2. is_digit c \<or> c = CHR ''.''"
    and "rest = [] \<or> \<not> (is_digit (hd rest) \<or> hd rest = CHR ''.'')"
    and "py_float n1 = Inr a" "py_float n2 = Inr b"
    and "\<forall>l'\<in>set post. \<not> gross_pay_line l'"
  shows "gross_pay s = Some a \<and> ytd_gross_pay s = Some b"
proof -
  have m: "re_search GROSS_PAY_PATTERN l = Some [n1, n2]"
    unfolding assms(2) using assms(3-12) by (rule gross_pay_shape)
  obtain c where c: "c \<in> set (sp1 @ n1 @ sp2 @ n2 @ rest)" "\<not> is_space c"
    using assms(6,7) digit_dot_not_space [of "hd n1"] by (cases n1) auto
  have g: "\<not> is_space (hd ''Gross Pay'')"
    by (simp add: is_space_def code_def)
  have sw: "startswith (strip l) ''Gross Pay''"
    unfolding assms(2) by (rule strip_keeps_prefix [OF assms(3) _ g c]) simp
  from assms(1) obtain s0 where s0: "for_loop summary_step pre (summary_init f p i) = Inr s0"
    and rest: "for_loop summary_step (l # post) s0 = Inr s"
    by (cases "for_loop summary_step pre (summary_init f p i)")
      (simp_all add: SummaryParser_extract_def for_loop_append)
  from rest have post: "for_loop summary_step post
      (s0\<lparr>gross_pay := Some a, ytd_gross_pay := Some b\<rparr>) = Inr s"
    by (simp add: summary_step_gross [OF sw m assms(13,14)])
  from summary_loop_other [OF assms(15) post] show ?thesis by simp
qed

lemmas py_float_eval = py_float_def strip_def split_sign_def split_point_def is_space_def
  is_digit_def digits_value_def code_def Let_def

theorem gross_pay_last_match_witness:
  "\<exists>s. SummaryParser_extract
          [''Gross Pay 1.00 2.00'', ''Gross Pay 1200.00 24000.00'', ''Employee 1234'']
          ''july.pdf'' 1 \<lparr>period = None, paid_date = None\<rparr> = Inr s \<and>
        gross_pay s = Some 1200 \<and> ytd_gross_pay s = Some 24000"
proof -
  have g1: "startswith (strip ''Gross Pay 1.00 2.00'') ''Gross Pay''"
    by code_simp
  have m1: "re_search GROSS_PAY_PATTERN ''Gross Pay 1.00 2.00'' = Some [''1.00'', ''2.00'']"
    by code_simp
  have f1: "py_float ''1.00'' = Inr 1" "py_float ''2.00'' = Inr 2"
    by (simp_all add: py_float_eval)
  have g2: "startswith (strip ''Gross Pay 1200.00 24000.00'') ''Gross Pay''"
    by code_simp
  have m2: "re_search GROSS_PAY_PATTERN ''Gross Pay 1200.00 24000.00'' =
      Some [''1200.00'', ''24000.00'']"
    by code_simp
  have f2: "py_float ''1200.00'' = Inr 1200" "py_float ''24000.00'' = Inr 24000"
    by (simp_all add: py_float_eval)
  have s3: "summary_step ''Employee 1234'' s = Inr s" for s
    by code_simp
  define r where "r = (summary_init ''july.pdf'' 1 \<lparr>period = None, paid_date = None\<rparr>)
      \<lparr>gross_pay := Some 1, ytd_gross_pay := Some 2\<rparr>
      \<lparr>gross_pay := Some 1200, ytd_gross_pay := Some 24000\<rparr>"
  have e: "SummaryParser_extract
      ([''Gross Pay 1.00 2.00''] @ ''Gross Pay 1200.00 24000.00'' # [''Employee 1234''])
      ''july.pdf'' 1 \<lparr>period = None, paid_date = None\<rparr> = Inr r"
    unfolding SummaryParser_extract_def r_def
    by (simp only: append_Cons append_Nil for_loop.simps sum.case s3
        summary_step_gross [OF g1 m1 f1] summary_step_gross [OF g2 m2 f2])
  have l: "''Gross Pay 1200.00 24000.00'' =
      [] @ ''Gross Pay'' @ '' '' @ ''1200.00'' @ '' '' @ ''24000.00'' @ []"
    by simp
  have sp: "\<forall>c\<in>set []. is_space c" "'' '' \<noteq> []" "\<forall>c\<in>set '' ''. is_space c"
    by code_simp+
  have n1: "''1200.00'' \<noteq> []" "\<forall>c\<in>set ''1200.00''. is_digit c \<or> c = CHR ''.''"
    by code_simp+
  have n2: "''24000.00'' \<noteq> []" "\<forall>c\<in>set ''24000.00''. is_digit c \<or> c = CHR ''.''"
    by code_simp+
  have rest: "[] = [] \<or> \<not> (is_digit (hd []) \<or> hd [] = CHR ''.'')"
    by simp
  have post: "\<forall>l'\<in>set [''Employee 1234'']. \<not> gross_pay_line l'"
    by code_simp
  from gross_pay_last_match [OF e l sp(1) sp(2,3) n1 sp(2,3) n2 rest f2 post]
  have "gross_pay r = Some 1200 \<and> ytd_gross_pay r = Some 24000" .
  moreover from e have "SummaryParser_extract
          [''Gross Pay 1.00 2.00'', ''Gross Pay 1200.00 24000.00'', ''Employee 1234'']
          ''july.pdf'' 1 \<lparr>period = None, paid_date = None\<rparr> = Inr r"
    by (simp only: append_Cons append_Nil)
  ultimately show ?thesis by blast
qed

section \<open>PDFProcessor: a document of two pages\<close>

lemma for_loop_identity:
  "(\<And>x t. x \<in> set xs \<Longrightarrow> body x t = Inr t) \<Longrightarrow> for_loop body xs s = Inr s"
  by (induction xs arbitrary: s) simp_all

lemma for_loop_keeps:
  "(\<And>x t. x \<in> set xs \<Longrightarrow> \<exists>t'. body x t = Inr t' \<and> g t' = g t) \<Longrightarrow>
   \<exists>s'. for_loop body xs s = Inr s' \<and> g s' = g s"
proof (induction xs arbitrary: s)
  case Nil
  then show ?case by simp
next
  case (Cons x xs)
  from Cons.prems [of x s] obtain t where t: "body x s = Inr t" "g t = g s"
    by auto
  have "\<exists>s'. for_loop body xs t = Inr s' \<and> g s' = g t"
  proof (rule Cons.IH)
    fix y u
    assume "y \<in> set xs"
    then show "\<exists>t'. body y u = Inr t' \<and> g t' = g u"
      using Cons.prems [of y u] by simp
  qed
  with t show ?case by auto
qed

lemma payment_step_no_match:
  assumes "re_match PAYMENT_PATTERN (lines ! k) = None"
  shows "\<exists>t'. payment_step lines f p i k t = Inr t' \<and> payments t' = payments t"
  using assms by (simp add: payment_step_def)

lemma no_payment_lines:
  assumes "\<forall>l\<in>set lines. re_match PAYMENT_PATTERN l = None"
  shows "PaymentParser_extract lines f p i = Inr []"
proof -
  have "\<exists>s'. for_loop (payment_step lines f p i) [0..<length lines] scan_init = Inr s' \<and>
      payments s' = payments scan_init"
  proof (rule for_loop_keeps)
    fix k t
    assume "k \<in> set [0..<length lines]"
    then have "re_match PAYMENT_PATTERN (lines ! k) = None"
      using assms by simp
    then show "\<exists>t'. payment_step lines f p i k t = Inr t' \<and> payments t' = payments t"
      by (rule payment_step_no_match)
  qed
  then show ?thesis
    by (auto simp: PaymentParser_extract_def scan_upto_def scan_init_def)
qed

lemma summary_step_no_label:
  assumes "\<not> startswith (strip l) ''Gross Pay''" "\<not> startswith (strip l) ''Nett Pay''"
    and "\<not> contains ''Commonwealth Bank of Australia'' l"
  shows "summary_step l s = Inr s"
  using assms by (simp add: summary_step_def Let_def tax_pattern_needs_prefix)

lemma no_summary_lines:
  assumes "\<forall>l\<in>set lines. \<not> startswith (strip l) ''Gross Pay'' \<and>
      \<not> startswith (strip l) ''Nett Pay'' \<and> \<not> contains ''Commonwealth Bank of Australia'' l"
  shows "SummaryParser_extract lines f p i = Inr (summary_init f p i)"
  unfolding SummaryParser_extract_def
  by (rule for_loop_identity) (use assms summary_step_no_label in blast)

lemma make_payment_page:
  "make_payment f p i m = Inr r \<Longrightarrow> PaymentRecord.page r = p"
  by (auto simp: make_payment_def Let_def split: sum.splits)

lemma extract_page:
  assumes "PaymentParser_extract lines f p i = Inr ps"
  shows "\<forall>r\<in>set ps. PaymentRecord.page r = p"
proof -
  let ?P = "\<lambda>st. \<forall>r\<in>set (payments st). PaymentRecord.page r = p"
  from assms obtain st where st: "scan_upto lines f p i (length lines) = Inr st"
    and ps: "ps = payments st"
    by (cases "scan_upto lines f p i (length lines)") (simp_all add: PaymentParser_extract_def)
  have init: "?P scan_init" by (simp add: scan_init_def)
  have "?P st"
  proof (rule for_loop_invariant [where P = ?P, OF st [unfolded scan_upto_def] init])
    fix k t t'
    assume t: "?P t" and s: "payment_step lines f p i k t = Inr t'"
    from payment_step_cases [OF s] consider
      (same) "payments t' = payments t"
      | (more) m r where "make_payment f p i m = Inr r" "payments t' = payments t @ [r]"
      by blast
    then show "?P t'"
    proof cases
      case same
      with t show ?thesis by simp
    next
      case more
      with t make_payment_page [of f p i m r] show ?thesis by simp
    qed
  qed
  with ps show ?thesis by simp
qed

lemma enumerate1_two: "enumerate1 [a, b] = [(1, a), (2, b)]"
  by (simp add: enumerate1_def upt_rec)

text \<open>
  Claim C7. A document has two pages, both with text. On page 1 the payment parser finds
  exactly one record \<open>r\<close> and the summary parser returns \<open>s1\<close>; page 2 has no line that
  matches the payment pattern and no line with a Gross Pay, Nett Pay or bank label. Then
  the processor returns the payments \<open>[r]\<close>, with \<open>r\<close> on page 1, and two summaries, \<open>s1\<close> and
  the record seeded for page 2, all of whose monetary fields are unset.
\<close>

theorem two_page_document:
  assumes "t1 \<noteq> []" and "t2 \<noteq> []"
    and "PaymentParser_extract (split_lines t1) f 1 (PayPeriodParser_extract (split_lines t1)) = Inr [r]"
    and "SummaryParser_extract (split_lines t1) f 1 (PayPeriodParser_extract (split_lines t1)) = Inr s1"
    and "\<forall>l\<in>set (split_lines t2). re_match PAYMENT_PATTERN l = None"
    and "\<forall>l\<in>set (split_lines t2). \<not> startswith (strip l) ''Gross Pay'' \<and>
      \<not> startswith (strip l) ''Nett Pay'' \<and> \<not> contains ''Commonwealth Bank of Australia'' l"
  shows "\<exists>s2. PDFProcessor_process f [Some t1, Some t2] = Inr ([r], [s1, s2]) \<and>
      s2 = summary_init f 2 (PayPeriodParser_extract (split_lines t2)) \<and>
      PaymentRecord.page r = 1 \<and> SummaryRecord.page s2 = 2 \<and>
      gross_pay s2 = None \<and> tax s2 = None \<and> nett_pay s2 = None \<and> ytd_gross_pay s2 = None \<and>
      ytd_tax s2 = None \<and> ytd_nett_pay s2 = None \<and> disbursement_amount s2 = None"
proof -
  let ?i2 = "PayPeriodParser_extract (split_lines t2)"
  have p1: "process_page f t1 1 ([], []) = Inr ([r], [s1])"
    using assms(3,4) by (simp add: process_page_def Let_def)
  have p2: "process_page f t2 2 ([r], [s1]) = Inr ([r], [s1, summary_init f 2 ?i2])"
    using no_payment_lines [OF assms(5), of f 2 ?i2] no_summary_lines [OF assms(6), of f 2 ?i2]
    by (simp add: process_page_def Let_def)
  have "PDFProcessor_process f [Some t1, Some t2] = Inr ([r], [s1, summary_init f 2 ?i2])"
    using assms(1,2) p1 p2
    by (simp add: PDFProcessor_process_def enumerate1_two page_body_def truthy_def)
  moreover have "PaymentRecord.page r = 1"
    using extract_page [OF assms(3)] by simp
  ultimately show ?thesis
    by (simp add: summary_init_def)
qed

theorem two_page_document_witness:
  "PDFProcessor_process ''july.pdf''
     [Some ''Pay Period 01/07/2024 to 14/07/2024 Paid 18/07/2024\<newline>Payments Hours Rate\<newline>CAS OrdPay (incCASloading) 7.6 45.50 01Jul24 345.80\<newline>Gross Pay 345.80 691.60'',
      Some ''End of payslip''] =
   Inr ([\<lparr>PaymentRecord.pdf_file = ''july.pdf'', page = 1,
           pay_period = Some ''01/07/2024 to 14/07/2024'', paid_date = Some ''18/07/2024'',
           work_date = ''2024-07-01'', hours = 76 / 10, rate = 4550 / 100,
           amount = 34580 / 100\<rparr>],
        [\<lparr>SummaryRecord.pdf_file = ''july.pdf'', page = 1,
           pay_period = Some ''01/07/2024 to 14/07/2024'', paid_date = Some ''18/07/2024'',
           gross_pay = Some (34580 / 100), tax = None, nett_pay = None,
           ytd_gross_pay = Some (69160 / 100), ytd_tax = None, ytd_nett_pay = None,
           disbursement_amount = None\<rparr>,
         \<lparr>SummaryRecord.pdf_file = ''july.pdf'', page = 2, pay_period = None, paid_date = None,
           gross_pay = None, tax = None, nett_pay = None, ytd_gross_pay = None, ytd_tax = None,
           ytd_nett_pay = None, disbursement_amount = None\<rparr>])"
proof -
  let ?t1 = "''Pay Period 01/07/2024 to 14/07/2024 Paid 18/07/2024\<newline>Payments Hours Rate\<newline>CAS OrdPay (incCASloading) 7.6 45.50 01Jul24 345.80\<newline>Gross Pay 345.80 691.60''"
  let ?t2 = "''End of payslip''"
  let ?r = "\<lparr>PaymentRecord.pdf_file = ''july.pdf'', page = 1,
           pay_period = Some ''01/07/2024 to 14/07/2024'', paid_date = Some ''18/07/2024'',
           work_date = ''2024-07-01'', hours = 76 / 10, rate = 4550 / 100,
           amount = 34580 / 100\<rparr>"
  let ?s1 = "\<lparr>SummaryRecord.pdf_file = ''july.pdf'', page = 1,
           pay_period = Some ''01/07/2024 to 14/07/2024'', paid_date = Some ''18/07/2024'',
           gross_pay = Some (34580 / 100), tax = None, nett_pay = None,
           ytd_gross_pay = Some (69160 / 100), ytd_tax = None, ytd_nett_pay = None,
           disbursement_amount = None\<rparr>"
  have n: "?t1 \<noteq> []" "?t2 \<noteq> []"
    by simp_all
  have a: "PaymentParser_extract (split_lines ?t1) ''july.pdf'' 1
      (PayPeriodParser_extract (split_lines ?t1)) = Inr [?r]"
    by code_simp
  have b: "SummaryParser_extract (split_lines ?t1) ''july.pdf'' 1
      (PayPeriodParser_extract (split_lines ?t1)) = Inr ?s1"
    by code_simp
  have c: "\<forall>l\<in>set (split_lines ?t2). re_match PAYMENT_PATTERN l = None"
    by code_simp
  have d: "\<forall>l\<in>set (split_lines ?t2). \<not> startswith (strip l) ''Gross Pay'' \<and>
      \<not> startswith (strip l) ''Nett Pay'' \<and> \<not> contains ''Commonwealth Bank of Australia'' l"
    by code_simp
  have e: "PayPeriodParser_extract (split_lines ?t2) = \<lparr>period = None, paid_date = None\<rparr>"
    by code_simp
  from two_page_document [OF n a b c d] obtain s2 where
    p: "PDFProcessor_process ''july.pdf'' [Some ?t1, Some ?t2] = Inr ([?r], [?s1, s2])"
    and s2: "s2 = summary_init ''july.pdf'' 2 (PayPeriodParser_extract (split_lines ?t2))"
    by blast
  have "s2 = \<lparr>SummaryRecord.pdf_file = ''july.pdf'', page = 2, pay_period = None,
      paid_date = None, gross_pay = None, tax = None, nett_pay = None, ytd_gross_pay = None,
      ytd_tax = None, ytd_nett_pay = None, disbursement_amount = None\<rparr>"
    unfolding s2 e by (simp add: summary_init_def)
  with p show ?thesis by (simp only:)
qed

end
